theory Spec2Isabelle
  imports Complex_Main "HOL-Library.Multiset"
begin

section \<open>Strings and slices as Python has them\<close>

text \<open>
  A Python \<open>str\<close> is modelled as a HOL \<open>string\<close> whose characters are read as code
  points below 256. \<open>isspace\<close> is \<open>str.isspace\<close> on those code points; \<open>strip\<close> is
  \<open>str.strip()\<close> with no argument; \<open>join\<close> is \<open>sep.join(xs)\<close>.
\<close>

definition isspace :: "char \<Rightarrow> bool" where
  "isspace c = (c \<in> {CHR 0x09, CHR 0x0A, CHR 0x0B, CHR 0x0C, CHR 0x0D,
                       CHR 0x1C, CHR 0x1D, CHR 0x1E, CHR 0x1F, CHR 0x20, CHR 0x85, CHR 0xA0})"

definition strip :: "string \<Rightarrow> string" where
  "strip s = rev (dropWhile isspace (rev (dropWhile isspace s)))"

fun join :: "string \<Rightarrow> string list \<Rightarrow> string" where
  "join sep [] = []"
| "join sep [x] = x"
| "join sep (x # y # ys) = x @ sep @ join sep (y # ys)"

definition nonblank :: "string \<Rightarrow> bool" where
  "nonblank s = (strip s \<noteq> [])"

text \<open>
  \<open>py_index n k\<close> is the position a slice bound \<open>k\<close> denotes in a sequence of length
  \<open>n\<close>: a negative bound counts from the end, and every bound is clamped to \<open>[0, n]\<close>.
  \<open>py_slice xs start stop\<close> is \<open>xs[start:stop]\<close>.
\<close>

definition py_index :: "nat \<Rightarrow> int \<Rightarrow> nat" where
  "py_index n k = (if k < 0 then nat (max 0 (int n + k)) else min (nat k) n)"

definition py_slice :: "'a list \<Rightarrow> int \<Rightarrow> int \<Rightarrow> 'a list" where
  "py_slice xs start stop =
     (let a = py_index (length xs) start; b = py_index (length xs) stop
      in take (b - a) (drop a xs))"

section \<open>The loader's line filter: \<open>_is_noise_line\<close> (retrieval.py)\<close>

text \<open>
  \<open>isalpha\<close> is \<open>str.isalpha\<close> on code points below 256. \<open>startswith s p\<close> is
  \<open>re.match\<close> of the literal \<open>p\<close> at the start of \<open>s\<close>, and \<open>contains s p\<close> is
  \<open>p in s\<close>. The letter ratio is a float division in the source and a division of
  reals here.
\<close>

definition isalpha :: "char \<Rightarrow> bool" where
  "isalpha c =
     (let k = (of_char c :: nat)
      in (65 \<le> k \<and> k \<le> 90) \<or> (97 \<le> k \<and> k \<le> 122) \<or> k = 170 \<or> k = 181 \<or> k = 186 \<or>
         (192 \<le> k \<and> k \<le> 214) \<or> (216 \<le> k \<and> k \<le> 246) \<or> (248 \<le> k \<and> k \<le> 255))"

definition startswith :: "string \<Rightarrow> string \<Rightarrow> bool" where
  "startswith s p = (take (length p) s = p)"

definition contains :: "string \<Rightarrow> string \<Rightarrow> bool" where
  "contains s p = list_ex (\<lambda>i. take (length p) (drop i s) = p) [0 ..< Suc (length s)]"

definition is_noise_line :: "string \<Rightarrow> bool" where
  "is_noise_line line =
     (let s = strip line
      in if s = [] then True
         else if startswith s ''http://'' \<or> startswith s ''https://'' \<or> startswith s ''www.''
         then True
         else if contains s ''Learn About Vorne XL'' then True
         else (let letters = length (filter isalpha s)
               in real letters / real (max 1 (length s)) < 0.25))"

text \<open>
  What \<open>read_doc_lines\<close> keeps of the raw lines of a file: for \<open>.md\<close> and \<open>.txt\<close> the
  lines that are not noise, as they are; for PDF pages and DOCX paragraphs the stripped
  lines that are not empty and not noise.
\<close>

definition text_lines :: "string list \<Rightarrow> string list" where
  "text_lines raw = filter (\<lambda>line. \<not> is_noise_line line) raw"

definition extracted_lines :: "string list \<Rightarrow> string list" where
  "extracted_lines raw = filter (\<lambda>line. line \<noteq> [] \<and> \<not> is_noise_line line) (map strip raw)"

section \<open>The chunker: \<open>make_chunks\<close> (retrieval.py)\<close>

text \<open>
  The \<open>while i < n\<close> loop of \<open>make_chunks\<close>, with the loop variable \<open>i\<close> and the
  output list \<open>out\<close> as arguments. \<open>window\<close> and \<open>stride\<close> are Python ints, so they
  are unbounded and may be zero or negative.
\<close>

function chunks_loop ::
  "string list \<Rightarrow> int \<Rightarrow> int \<Rightarrow> int \<Rightarrow> (int \<times> int \<times> string) list
     \<Rightarrow> (int \<times> int \<times> string) list" where
  "chunks_loop lines window stride i out =
     (let n = int (length lines) in
      if i < n then
        (let s = i;
             e = min (n - 1) (i + window - 1);
             txt = strip (join ''\<newline>'' (py_slice lines s (e + 1)));
             out' = (if txt \<noteq> [] then out @ [(s, e, txt)] else out)
         in chunks_loop lines window stride (i + max 1 stride) out')
      else out)"
  by pat_completeness auto
termination
  by (relation "measure (\<lambda>(lines, window, stride, i, out). nat (int (length lines) - i))") auto

declare chunks_loop.simps [simp del]

definition make_chunks :: "string list \<Rightarrow> int \<Rightarrow> int \<Rightarrow> (int \<times> int \<times> string) list" where
  "make_chunks lines window stride = chunks_loop lines window stride 0 []"

text \<open>
  The same loop with a bound on the number of times its body may run: each unit of fuel
  pays for one iteration, and \<open>None\<close> means the bound was reached with \<open>i < n\<close> still
  true.
\<close>

fun chunks_loop_fuel ::
  "nat \<Rightarrow> string list \<Rightarrow> int \<Rightarrow> int \<Rightarrow> int \<Rightarrow> (int \<times> int \<times> string) list
     \<Rightarrow> (int \<times> int \<times> string) list option" where
  "chunks_loop_fuel 0 lines window stride i out =
     (if i < int (length lines) then None else Some out)"
| "chunks_loop_fuel (Suc fuel) lines window stride i out =
     (let n = int (length lines) in
      if i < n then
        (let s = i;
             e = min (n - 1) (i + window - 1);
             txt = strip (join ''\<newline>'' (py_slice lines s (e + 1)));
             out' = (if txt \<noteq> [] then out @ [(s, e, txt)] else out)
         in chunks_loop_fuel fuel lines window stride (i + max 1 stride) out')
      else Some out)"

definition make_chunks_fuel ::
  "nat \<Rightarrow> string list \<Rightarrow> int \<Rightarrow> int \<Rightarrow> (int \<times> int \<times> string) list option" where
  "make_chunks_fuel fuel lines window stride = chunks_loop_fuel fuel lines window stride 0 []"

text \<open>A line index \<open>j\<close> is covered when some emitted chunk has \<open>start \<le> j \<le> end\<close>.\<close>

definition covers :: "(int \<times> int \<times> string) list \<Rightarrow> int \<Rightarrow> bool" where
  "covers cs j = list_ex (\<lambda>(s, e, txt). s \<le> j \<and> j \<le> e) cs"

section \<open>Python values used by the index\<close>

text \<open>
  Indexing a list with a Python int: a negative index counts from the end, and an index
  outside \<open>[-n, n)\<close> raises \<open>IndexError\<close>. A list comprehension that indexes stops at
  the first element that raises.
\<close>

datatype py_error = IndexError | ValueError

definition py_get :: "'a list \<Rightarrow> int \<Rightarrow> py_error + 'a" where
  "py_get xs i =
     (if 0 \<le> i \<and> i < int (length xs) then Inr (xs ! nat i)
      else if i < 0 \<and> - int (length xs) \<le> i then Inr (xs ! nat (int (length xs) + i))
      else Inl IndexError)"

fun py_get_all :: "'a list \<Rightarrow> int list \<Rightarrow> py_error + 'a list" where
  "py_get_all xs [] = Inr []"
| "py_get_all xs (i # js) =
     (case py_get xs i of
        Inl e \<Rightarrow> Inl e
      | Inr x \<Rightarrow> (case py_get_all xs js of Inl e \<Rightarrow> Inl e | Inr ys \<Rightarrow> Inr (x # ys)))"

text \<open>
  \<open>np.argsort(scores)\<close> is a permutation of the positions of \<open>scores\<close> that lists them by
  ascending score; \<open>np.argsort(scores)[::-1]\<close> is its reverse. Scores are floats in the
  source and reals here. The order among equal scores is not fixed by numpy's default
  sort; the model takes the stable one, and no theorem below depends on that choice.
\<close>

definition argsort :: "real list \<Rightarrow> nat list" where
  "argsort scores = sort_key (\<lambda>i. scores ! i) [0 ..< length scores]"

definition argsort_desc :: "real list \<Rightarrow> nat list" where
  "argsort_desc scores = rev (argsort scores)"

text \<open>
  \<open>_tokenize\<close>: \<open>re.findall\<close> of \<open>[A-Za-z0-9_]+\<close> yields the maximal runs of token
  characters from left to right; each is lowercased.
\<close>

definition is_token_char :: "char \<Rightarrow> bool" where
  "is_token_char c =
     (let k = (of_char c :: nat)
      in (65 \<le> k \<and> k \<le> 90) \<or> (97 \<le> k \<and> k \<le> 122) \<or> (48 \<le> k \<and> k \<le> 57) \<or> k = 95)"

definition lower_char :: "char \<Rightarrow> char" where
  "lower_char c =
     (let k = (of_char c :: nat) in if 65 \<le> k \<and> k \<le> 90 then char_of (k + 32) else c)"

fun findall_tokens :: "string \<Rightarrow> string \<Rightarrow> string list" where
  "findall_tokens cur [] = (if cur = [] then [] else [cur])"
| "findall_tokens cur (c # cs) =
     (if is_token_char c then findall_tokens (cur @ [c]) cs
      else (if cur = [] then [] else [cur]) @ findall_tokens [] cs)"

definition tokenize :: "string \<Rightarrow> string list" where
  "tokenize s = map (map lower_char) (findall_tokens [] s)"

section \<open>The external libraries and the configuration\<close>

text \<open>
  scikit-learn, rank_bm25, rapidfuzz, faiss and sentence_transformers are not part of
  the repository; what the code reads from them is a parameter of the model.

  \<^item> \<open>tfidf_scores texts query i\<close>: entry \<open>i\<close> of \<open>(qv @ lex_mx.T).toarray().ravel()\<close> for
    the vectorizer fitted on \<open>texts\<close>; the matrix has one row per text, so the score
    vector has \<open>length texts\<close> entries.
  \<^item> \<open>tfidf_n_features texts\<close>: the vocabulary size \<open>X.shape[1]\<close> after fitting on
    \<open>texts\<close>.
  \<^item> \<open>bm25_available\<close>: whether \<open>rank_bm25\<close> was imported; \<open>bm25_get_scores corpus qtok i\<close>:
    entry \<open>i\<close> of \<open>BM25Okapi(corpus).get_scores(qtok)\<close>, one entry per corpus document.
  \<^item> \<open>fuzz\<close>: \<open>rapidfuzz.fuzz.token_set_ratio\<close> (a value in \<open>[0, 100]\<close>), or \<open>None\<close>
    when the import failed.
  \<^item> \<open>faiss_available\<close>: whether \<open>faiss\<close> was imported. \<open>svd_fit_ok texts d\<close>: whether
    fitting \<open>TruncatedSVD(n_components = d)\<close> on the vectors of \<open>texts\<close> and filling the
    \<open>IndexFlatIP(d)\<close> ran without an exception. \<open>faiss_search texts d query k\<close>: the row
    \<open>I[0]\<close> of labels returned by the search of that index, or \<open>None\<close> when the query
    path raised.
  \<^item> \<open>rerank_cosine query texts i\<close>: entry \<open>i\<close> of
    \<open>cosine_similarity(X[0], X[1:]).ravel()\<close> for the vectorizer fitted on
    \<open>[query] + texts\<close>; one entry per text.
  \<^item> \<open>ce_available m\<close>: whether the cross-encoder \<open>m\<close> could be loaded;
    \<open>ce_predict m query text\<close>: its score of the pair.

  \<^item> \<open>tfidf_fit_ok docs\<close>: whether \<open>TfidfVectorizer.fit_transform(docs)\<close> returns; it
    raises \<open>ValueError\<close> when no document leaves a term after stop-word removal (an
    empty vocabulary).

  Inside a \<open>try\<close> block of the source the failure of a library call is the
  parameter's \<open>False\<close> or \<open>None\<close>. Outside one, the only failure in the model is the
  \<open>ValueError\<close> of \<open>fit_transform\<close>; it enters through \<open>KBIndex_call\<close>,
  \<open>rerank_raises\<close> and \<open>hybrid_search_call\<close> below, and every other function gives the
  value of the call that returns.
\<close>

record libs =
  tfidf_scores :: "string list \<Rightarrow> string \<Rightarrow> nat \<Rightarrow> real"
  tfidf_n_features :: "string list \<Rightarrow> nat"
  bm25_available :: bool
  bm25_get_scores :: "string list list \<Rightarrow> string list \<Rightarrow> nat \<Rightarrow> real"
  fuzz :: "(string \<Rightarrow> string \<Rightarrow> real) option"
  faiss_available :: bool
  svd_fit_ok :: "string list \<Rightarrow> int \<Rightarrow> bool"
  faiss_search :: "string list \<Rightarrow> int \<Rightarrow> string \<Rightarrow> int \<Rightarrow> int list option"
  rerank_cosine :: "string \<Rightarrow> string list \<Rightarrow> nat \<Rightarrow> real"
  ce_available :: "string \<Rightarrow> bool"
  ce_predict :: "string \<Rightarrow> string \<Rightarrow> string \<Rightarrow> real"
  tfidf_fit_ok :: "string list \<Rightarrow> bool"

text \<open>
  The contract of \<open>faiss.Index.search\<close> that the code relies on: every label is a row
  number of the index, or \<open>-1\<close> where fewer than \<open>k\<close> neighbours exist.
\<close>

definition faiss_contract :: "libs \<Rightarrow> bool" where
  "faiss_contract L =
     (\<forall>texts d query k labels.
        faiss_search L texts d query k = Some labels \<longrightarrow>
        (\<forall>l\<in>set labels. - 1 \<le> l \<and> l < int (length texts)))"

text \<open>
  The settings the index reads (settings.py) and the \<open>BM25_ENABLED\<close> environment
  variable after its parse to a bool.
\<close>

record config =
  faiss_enabled :: bool
  svd_components :: int
  sencoder_model :: "string option"
  bm25_enabled :: bool

section \<open>The vector index: \<open>FaissIndex\<close> (faiss_index.py)\<close>

text \<open>
  \<open>fi_svd\<close> is \<open>None\<close> when \<open>self.svd\<close> is, and otherwise the number of components the
  fitted SVD has.
\<close>

record FaissIndex =
  fi_texts :: "string list"
  fi_enabled :: bool
  fi_svd :: "int option"

definition eff_dims :: "int \<Rightarrow> int \<Rightarrow> int" where
  "eff_dims dims n_features = min dims (max 2 (max (n_features - 1) 8))"

definition FaissIndex_init :: "libs \<Rightarrow> string list \<Rightarrow> int \<Rightarrow> FaissIndex" where
  "FaissIndex_init L texts dims =
     (let texts' = (if texts = [] then [''placeholder''] else texts);
          off = \<lparr>fi_texts = texts', fi_enabled = False, fi_svd = None\<rparr>;
          n_features = int (tfidf_n_features L texts')
      in if \<not> faiss_available L \<or> n_features < 3 then off
         else (let e = eff_dims dims n_features
               in if svd_fit_ok L texts' e
                  then \<lparr>fi_texts = texts', fi_enabled = True, fi_svd = Some e\<rparr>
                  else off))"

definition FaissIndex_search :: "libs \<Rightarrow> FaissIndex \<Rightarrow> string \<Rightarrow> int \<Rightarrow> int list" where
  "FaissIndex_search L fi query top_k =
     (if \<not> fi_enabled fi \<or> strip query = [] then []
      else (case fi_svd fi of
              None \<Rightarrow> []
            | Some d \<Rightarrow>
                (case faiss_search L (fi_texts fi) d query top_k of
                   None \<Rightarrow> []
                 | Some labels \<Rightarrow> filter (\<lambda>i. 0 \<le> i) labels)))"

section \<open>The rerankers (reranker.py)\<close>

datatype reranker = TfidfReranker | HFCEC string

definition tfidf_sim :: "libs \<Rightarrow> string \<Rightarrow> (int \<times> string) list \<Rightarrow> real list" where
  "tfidf_sim L query candidates =
     (let texts = (if map snd candidates = [] then [''''] else map snd candidates)
      in map (rerank_cosine L query texts) [0 ..< length texts])"

definition TfidfReranker_rerank :: "libs \<Rightarrow> string \<Rightarrow> (int \<times> string) list \<Rightarrow> int list" where
  "TfidfReranker_rerank L query candidates =
     map int (argsort_desc (tfidf_sim L query candidates))"

definition ce_scores :: "libs \<Rightarrow> string \<Rightarrow> string \<Rightarrow> (int \<times> string) list \<Rightarrow> real list" where
  "ce_scores L m query candidates =
     (let pairs = map (\<lambda>c. (query, snd c)) candidates
      in map (\<lambda>(q, t). ce_predict L m q t) pairs)"

definition HFCEC_rerank :: "libs \<Rightarrow> string \<Rightarrow> string \<Rightarrow> (int \<times> string) list \<Rightarrow> int list" where
  "HFCEC_rerank L m query candidates = map int (argsort_desc (ce_scores L m query candidates))"

text \<open>The scores a reranker sorts by, and the dispatch on the reranker's class.\<close>

fun rerank_scores :: "libs \<Rightarrow> reranker \<Rightarrow> string \<Rightarrow> (int \<times> string) list \<Rightarrow> real list" where
  "rerank_scores L TfidfReranker query candidates = tfidf_sim L query candidates"
| "rerank_scores L (HFCEC m) query candidates = ce_scores L m query candidates"

fun rerank :: "libs \<Rightarrow> reranker \<Rightarrow> string \<Rightarrow> (int \<times> string) list \<Rightarrow> int list" where
  "rerank L TfidfReranker query candidates = TfidfReranker_rerank L query candidates"
| "rerank L (HFCEC m) query candidates = HFCEC_rerank L m query candidates"

definition build_reranker :: "libs \<Rightarrow> config \<Rightarrow> reranker" where
  "build_reranker L cfg =
     (case sencoder_model cfg of
        None \<Rightarrow> TfidfReranker
      | Some m \<Rightarrow> if m = [] then TfidfReranker
                  else if ce_available L m then HFCEC m else TfidfReranker)"

text \<open>
  \<open>TfidfReranker.rerank\<close> calls \<open>fit_transform([query] + texts)\<close> outside any \<open>try\<close>:
  the call of \<open>rerank\<close> raises \<open>ValueError\<close> when that fit does. \<open>tfidf_sim\<close> and
  \<open>rerank\<close> above are the value when it returns.
\<close>

fun rerank_raises :: "libs \<Rightarrow> reranker \<Rightarrow> string \<Rightarrow> (int \<times> string) list \<Rightarrow> bool" where
  "rerank_raises L TfidfReranker query candidates =
     (\<not> tfidf_fit_ok L
          (query # (if map snd candidates = [] then [''''] else map snd candidates)))"
| "rerank_raises L (HFCEC m) query candidates = False"

definition rerank_call ::
  "libs \<Rightarrow> reranker \<Rightarrow> string \<Rightarrow> (int \<times> string) list \<Rightarrow> py_error + int list" where
  "rerank_call L r query candidates =
     (if rerank_raises L r query candidates then Inl ValueError
      else Inr (rerank L r query candidates))"

section \<open>The hybrid index: \<open>KBIndex\<close> (retrieval.py)\<close>

record Chunk =
  doc_id :: string
  start_line :: int
  end_line :: int
  chunk_text :: string

text \<open>
  The fields of a built \<open>KBIndex\<close>. \<open>kb_empty\<close> is \<open>_empty\<close>. \<open>lex_texts\<close> stands for
  the fitted pair \<open>lex_vec\<close>, \<open>lex_mx\<close>: the texts they were fitted on. \<open>bm25\<close> tells
  whether \<open>_bm25\<close> holds a \<open>BM25Okapi\<close> (then built over \<open>bm25_corpus_tokens\<close>) or
  \<open>None\<close> (then \<open>_bm25_corpus_tokens\<close> was never set and reads as \<open>[]\<close>).
\<close>

record KBIndex =
  chunks :: "Chunk list"
  kb_empty :: bool
  lex_texts :: "string list"
  bm25 :: bool
  bm25_corpus_tokens :: "string list list"
  faiss :: "FaissIndex option"
  reranker :: reranker

definition doc_chunks :: "string \<times> string list \<Rightarrow> Chunk list" where
  "doc_chunks d =
     map (\<lambda>(s, e, txt). \<lparr>doc_id = fst d, start_line = s, end_line = e, chunk_text = txt\<rparr>)
       (make_chunks (snd d) 4 3)"

text \<open>
  \<open>KBIndex.__init__\<close>. \<open>docs\<close> is what \<open>iter_docs(kb_dir)\<close> yields: the supported files
  of the directory, each with its cleaned lines.
\<close>

definition KBIndex_init :: "libs \<Rightarrow> config \<Rightarrow> (string \<times> string list) list \<Rightarrow> KBIndex" where
  "KBIndex_init L cfg docs =
     (let cs = concat (map doc_chunks docs);
          texts = (if map chunk_text cs = [] then [''placeholder''] else map chunk_text cs);
          empty = (texts = [''placeholder'']);
          with_bm25 = (bm25_available L \<and> \<not> empty \<and> bm25_enabled cfg)
      in \<lparr>chunks = cs,
          kb_empty = empty,
          lex_texts = texts,
          bm25 = with_bm25,
          bm25_corpus_tokens = (if with_bm25 then map tokenize texts else []),
          faiss = (if faiss_enabled cfg
                   then Some (FaissIndex_init L texts (svd_components cfg)) else None),
          reranker = build_reranker L cfg\<rparr>)"

definition lexical_topn :: "libs \<Rightarrow> KBIndex \<Rightarrow> string \<Rightarrow> int \<Rightarrow> int list" where
  "lexical_topn L idx query n =
     (if kb_empty idx then []
      else (let scores = map (tfidf_scores L (lex_texts idx) query) [0 ..< length (lex_texts idx)]
            in if scores = [] then []
               else (let ix = argsort_desc scores
                     in map int (filter (\<lambda>i. 0 < scores ! i) (py_slice ix 0 n)))))"

text \<open>
  The boost loop of \<open>bm25_topn\<close>: one step per \<open>(i, toks)\<close> of
  \<open>enumerate(_bm25_corpus_tokens)\<close>, updating the \<open>boost\<close> array in place.
\<close>

definition boost_step ::
  "(string \<Rightarrow> string \<Rightarrow> real) \<Rightarrow> string \<Rightarrow> nat \<times> string list \<Rightarrow> real list \<Rightarrow> real list" where
  "boost_step ratio qstr p boost =
     (let i = fst p; toks = snd p
      in if toks = [] then boost
         else (let s = ratio qstr (join '' '' toks) / 100
               in if 0.85 < s then boost[i := boost ! i + 0.15 * s] else boost))"

definition bm25_scores :: "libs \<Rightarrow> KBIndex \<Rightarrow> string \<Rightarrow> real list" where
  "bm25_scores L idx query =
     (let qtok = tokenize query;
          corpus = bm25_corpus_tokens idx;
          scores = map (bm25_get_scores L corpus qtok) [0 ..< length corpus]
      in (case fuzz L of
            None \<Rightarrow> scores
          | Some ratio \<Rightarrow>
              if length qtok \<le> 3
              then (let boost = fold (boost_step ratio (join '' '' qtok))
                                  (List.enumerate 0 corpus) (replicate (length scores) 0)
                    in map (\<lambda>(a, b). a + b) (zip scores boost))
              else scores))"

definition bm25_topn :: "libs \<Rightarrow> KBIndex \<Rightarrow> string \<Rightarrow> int \<Rightarrow> int list" where
  "bm25_topn L idx query n =
     (if \<not> bm25 idx \<or> kb_empty idx \<or> strip query = [] then []
      else (let scores = bm25_scores L idx query;
                ix = argsort_desc scores
            in map int (filter (\<lambda>i. 0 < scores ! i) (py_slice ix 0 n))))"

definition faiss_topn :: "libs \<Rightarrow> KBIndex \<Rightarrow> string \<Rightarrow> int \<Rightarrow> int list" where
  "faiss_topn L idx query n =
     (case faiss idx of
        None \<Rightarrow> []
      | Some fi \<Rightarrow> if kb_empty idx then [] else FaissIndex_search L fi query n)"

text \<open>
  The candidate set of \<open>hybrid_search\<close>: \<open>set(lexical_topn(...))\<close>, then one
  \<open>cand_ids.add(i)\<close> per element of the two other signals. Iterating a Python set of
  ints yields each element once, in an order the language leaves open; the model
  iterates in ascending order.
\<close>

definition fused_ids :: "libs \<Rightarrow> KBIndex \<Rightarrow> string \<Rightarrow> int set" where
  "fused_ids L idx query =
     fold insert (faiss_topn L idx query 25)
       (fold insert (bm25_topn L idx query 25) (set (lexical_topn L idx query 25)))"

definition hybrid_search :: "libs \<Rightarrow> KBIndex \<Rightarrow> string \<Rightarrow> int \<Rightarrow> py_error + Chunk list" where
  "hybrid_search L idx query top_k =
     (if strip query = [] then Inr []
      else (let cand_ids = fused_ids L idx query
            in if cand_ids = {} then Inr []
               else (let ids = sorted_list_of_set cand_ids
                     in case py_get_all (chunks idx) ids of
                          Inl e \<Rightarrow> Inl e
                        | Inr cs \<Rightarrow>
                            (let candidates = zip ids (map chunk_text cs);
                                 order = rerank L (reranker idx) query candidates
                             in case py_get_all candidates (py_slice order 0 (max 1 top_k)) of
                                  Inl e \<Rightarrow> Inl e
                                | Inr sel \<Rightarrow> py_get_all (chunks idx) (map fst sel)))))"

text \<open>
  The calls with the vectorizer's \<open>ValueError\<close>. \<open>KBIndex_call\<close> is the constructor call
  \<open>KBIndex(kb_dir)\<close>: \<open>lex_vec.fit_transform(texts)\<close> (line 139) stands outside any
  \<open>try\<close>, so the call raises when the fit does, and otherwise returns the index that
  \<open>KBIndex_init\<close> describes. \<open>hybrid_search_call\<close> is the call of
  \<open>KBIndex.hybrid_search\<close>: it raises when the reranker's fit does, and otherwise
  returns what \<open>hybrid_search\<close> describes.
\<close>

definition KBIndex_call ::
  "libs \<Rightarrow> config \<Rightarrow> (string \<times> string list) list \<Rightarrow> py_error + KBIndex" where
  "KBIndex_call L cfg docs =
     (if tfidf_fit_ok L (lex_texts (KBIndex_init L cfg docs))
      then Inr (KBIndex_init L cfg docs) else Inl ValueError)"

definition hybrid_search_call ::
  "libs \<Rightarrow> KBIndex \<Rightarrow> string \<Rightarrow> int \<Rightarrow> py_error + Chunk list" where
  "hybrid_search_call L idx query top_k =
     (if strip query = [] then Inr []
      else (let cand_ids = fused_ids L idx query
            in if cand_ids = {} then Inr []
               else (let ids = sorted_list_of_set cand_ids
                     in case py_get_all (chunks idx) ids of
                          Inl e \<Rightarrow> Inl e
                        | Inr cs \<Rightarrow>
                            if rerank_raises L (reranker idx) query (zip ids (map chunk_text cs))
                            then Inl ValueError
                            else hybrid_search L idx query top_k)))"

text \<open>
  The facade: the module-level \<open>_index\<close> is the state, \<open>None\<close> before the first build.
  \<open>docs\<close> is the content of the knowledge-base directory at the time of the call.
  \<open>get_index\<close> builds the index when none is live, before anything else happens; when
  the build raises, \<open>_index\<close> stays as it was. \<open>search\<close> is the module-level
  \<open>hybrid_search(query, top_k)\<close>.
\<close>

definition get_index ::
  "libs \<Rightarrow> config \<Rightarrow> (string \<times> string list) list \<Rightarrow> KBIndex option
     \<Rightarrow> py_error + (KBIndex \<times> KBIndex option)" where
  "get_index L cfg docs st =
     (case st of
        None \<Rightarrow> (case KBIndex_call L cfg docs of
                   Inl e \<Rightarrow> Inl e
                 | Inr idx \<Rightarrow> Inr (idx, Some idx))
      | Some idx \<Rightarrow> Inr (idx, Some idx))"

definition rebuild_index ::
  "libs \<Rightarrow> config \<Rightarrow> (string \<times> string list) list \<Rightarrow> KBIndex option
     \<Rightarrow> py_error + (KBIndex \<times> KBIndex option)" where
  "rebuild_index L cfg docs st = get_index L cfg docs None"

definition search ::
  "libs \<Rightarrow> config \<Rightarrow> (string \<times> string list) list \<Rightarrow> KBIndex option \<Rightarrow> string \<Rightarrow> int
     \<Rightarrow> (py_error + Chunk list) \<times> KBIndex option" where
  "search L cfg docs st query top_k =
     (case get_index L cfg docs st of
        Inl e \<Rightarrow> (Inl e, st)
      | Inr (idx, st') \<Rightarrow> (hybrid_search_call L idx query top_k, st'))"

section \<open>The fuzzy boost as the specification words it\<close>

text \<open>
  The specification's account of \<open>bm25_topn\<close> for a query of at most three tokens,
  written from its words and compared with the code below. A chunk whose joined tokens
  have fuzzy similarity \<open>s > 0.85\<close> with the joined query tokens gets \<open>0.15 * s\<close>
  added to its BM25 score; the positions are then sorted by descending score, those with
  a strictly positive score are kept, and the first \<open>N\<close> of them are returned.
\<close>

definition spec_boost :: "(string \<Rightarrow> string \<Rightarrow> real) \<Rightarrow> string \<Rightarrow> string list \<Rightarrow> real" where
  "spec_boost ratio qstr toks =
     (let s = ratio qstr (join '' '' toks) / 100 in if 0.85 < s then 0.15 * s else 0)"

definition spec_boosted_scores ::
  "libs \<Rightarrow> (string \<Rightarrow> string \<Rightarrow> real) \<Rightarrow> KBIndex \<Rightarrow> string \<Rightarrow> real list" where
  "spec_boosted_scores L ratio idx query =
     (let qtok = tokenize query; corpus = bm25_corpus_tokens idx
      in map (\<lambda>i. bm25_get_scores L corpus qtok i
                    + spec_boost ratio (join '' '' qtok) (corpus ! i))
           [0 ..< length corpus])"

definition spec_top_positive :: "int \<Rightarrow> real list \<Rightarrow> int list" where
  "spec_top_positive n scores =
     map int (take (nat n) (filter (\<lambda>i. 0 < scores ! i) (argsort_desc scores)))"

section \<open>A small instance for evaluation\<close>

text \<open>
  Stand-ins for the libraries, used only to evaluate the model on concrete inputs: every
  similarity is the number of query tokens that occur in the text, the fuzzy ratio is
  100 on equal strings and 0 otherwise, every SVD fit succeeds, and the vector search
  returns the first rows of the index, padded with \<open>-1\<close>. The vectorizer's fit returns
  when some document has a token of two or more characters that is not one of a few
  stop words.
\<close>

definition demo_stop_words :: "string list" where
  "demo_stop_words = [''is'', ''the'', ''an'', ''of'', ''and'', ''what'']"

definition demo_vocabulary :: "string list \<Rightarrow> string list" where
  "demo_vocabulary docs =
     filter (\<lambda>w. 2 \<le> length w \<and> w \<notin> set demo_stop_words) (concat (map tokenize docs))"

definition demo_ratio :: "string \<Rightarrow> string \<Rightarrow> real" where
  "demo_ratio a b = (if a = b \<and> a \<noteq> [] then 100 else 0)"

definition overlap :: "string \<Rightarrow> string \<Rightarrow> real" where
  "overlap query t = real (length (filter (\<lambda>w. w \<in> set (tokenize t)) (tokenize query)))"

definition demo_libs :: libs where
  "demo_libs =
     \<lparr>tfidf_scores = (\<lambda>texts query i. overlap query (texts ! i)),
      tfidf_n_features = (\<lambda>texts. length (remdups (concat (map tokenize texts)))),
      bm25_available = True,
      bm25_get_scores = (\<lambda>corpus qtok i. real (length (filter (\<lambda>w. w \<in> set (corpus ! i)) qtok))),
      fuzz = Some demo_ratio,
      faiss_available = True,
      svd_fit_ok = (\<lambda>texts d. True),
      faiss_search = (\<lambda>texts d query k.
         Some (take (nat k) (map int [0 ..< length texts])
               @ replicate (nat k - length texts) (- 1))),
      rerank_cosine = (\<lambda>query texts i. overlap query (texts ! i)),
      ce_available = (\<lambda>m. False),
      ce_predict = (\<lambda>m query t. overlap query t),
      tfidf_fit_ok = (\<lambda>docs. demo_vocabulary docs \<noteq> [])\<rparr>"

definition demo_config :: config where
  "demo_config =
     \<lparr>faiss_enabled = True, svd_components = 256, sencoder_model = None, bm25_enabled = True\<rparr>"

definition demo_docs :: "(string \<times> string list) list" where
  "demo_docs = [(''a.md'', [''Alpha is a test term.'', ''Beta is unrelated.''])]"

text \<open>
  Two corpora with stop words only: one whose only document is \<open>is the\<close>, and one where
  that document stands beside two others; and a configuration with the vector signal
  switched off.
\<close>

definition stop_word_docs :: "(string \<times> string list) list" where
  "stop_word_docs = [(''a.md'', [''is the''])]"

definition mixed_docs :: "(string \<times> string list) list" where
  "mixed_docs = [(''a.md'', [''is the'']), (''b.md'', [''alpha'']), (''c.md'', [''beta''])]"

definition no_faiss_config :: config where
  "no_faiss_config =
     \<lparr>faiss_enabled = False, svd_components = 256, sencoder_model = None, bm25_enabled = True\<rparr>"

section \<open>Properties of the chunker\<close>

lemma strip_eq_Nil_iff: "strip s = [] \<longleftrightarrow> (\<forall>c\<in>set s. isspace c)"
proof -
  have "strip s = [] \<longleftrightarrow> (\<forall>c\<in>set (dropWhile isspace s). isspace c)"
    by (auto simp: strip_def dest: set_dropWhileD)
  also have "\<dots> \<longleftrightarrow> dropWhile isspace s = []"
  proof (cases "dropWhile isspace s")
    case Nil
    then show ?thesis by (simp del: dropWhile_eq_Nil_conv)
  next
    case (Cons c cs)
    then have "\<not> isspace c" using hd_dropWhile [of isspace s] by simp
    with Cons show ?thesis by auto
  qed
  also have "\<dots> \<longleftrightarrow> (\<forall>c\<in>set s. isspace c)"
    by (simp add: dropWhile_eq_Nil_conv)
  finally show ?thesis .
qed

lemma set_join_member: "x \<in> set xs \<Longrightarrow> set x \<subseteq> set (join sep xs)"
  by (induction sep xs rule: join.induct) auto

lemma strip_join_nonempty:
  assumes "x \<in> set xs" and "nonblank x"
  shows "strip (join sep xs) \<noteq> []"
proof -
  from assms(2) obtain c where "c \<in> set x" "\<not> isspace c"
    by (auto simp: nonblank_def strip_eq_Nil_iff)
  with set_join_member [OF assms(1), of sep] show ?thesis
    by (auto simp: strip_eq_Nil_iff)
qed

lemma take_drop_map_nth:
  "a + k \<le> length xs \<Longrightarrow> take k (drop a xs) = map (\<lambda>i. xs ! i) [a ..< a + k]"
  by (rule nth_equalityI) (auto simp del: upt_Suc)

lemma py_slice_range:
  assumes "0 \<le> a" "a \<le> b" "b < int (length xs)"
  shows "py_slice xs a (b + 1) = map (\<lambda>k. xs ! k) [nat a ..< nat b + 1]"
proof -
  have "py_slice xs a (b + 1) = take (nat b + 1 - nat a) (drop (nat a) xs)"
    using assms by (auto simp: py_slice_def py_index_def Let_def nat_add_distrib min_def)
  also have "\<dots> = map (\<lambda>k. xs ! k) [nat a ..< nat b + 1]"
    using assms take_drop_map_nth [of "nat a" "nat b + 1 - nat a" xs] by auto
  finally show ?thesis .
qed

lemma chunks_loop_fuel_enough:
  "nat (int (length lines) - i) \<le> fuel \<Longrightarrow>
     chunks_loop_fuel fuel lines window stride i out = Some (chunks_loop lines window stride i out)"
proof (induction fuel arbitrary: i out)
  case 0
  then show ?case by (subst chunks_loop.simps) simp
next
  case (Suc fuel)
  show ?case
  proof (cases "i < int (length lines)")
    case False
    then show ?thesis by (subst chunks_loop.simps) simp
  next
    case True
    then have "nat (int (length lines) - (i + max 1 stride)) \<le> fuel"
      using Suc.prems by linarith
    from Suc.IH [OF this] True show ?thesis
      by (subst chunks_loop.simps) (simp add: Let_def)
  qed
qed


lemma chunks_loop_elems:
  "(a, b, t) \<in> set (chunks_loop lines window stride i out) \<Longrightarrow>
     (a, b, t) \<in> set out \<or>
     (i \<le> a \<and> a < int (length lines) \<and> b = min (int (length lines) - 1) (a + window - 1) \<and>
      t = strip (join ''\<newline>'' (py_slice lines a (b + 1))) \<and> t \<noteq> [])"
proof (induction lines window stride i out rule: chunks_loop.induct)
  case (1 lines window stride i out)
  show ?case
  proof (cases "i < int (length lines)")
    case False
    with "1.prems" show ?thesis by (subst (asm) chunks_loop.simps) simp
  next
    case True
    define e where "e = min (int (length lines) - 1) (i + window - 1)"
    define tx where "tx = strip (join ''\<newline>'' (py_slice lines i (e + 1)))"
    define out2 where "out2 = (if tx \<noteq> [] then out @ [(i, e, tx)] else out)"
    have step: "chunks_loop lines window stride i out =
                chunks_loop lines window stride (i + max 1 stride) out2"
      using True by (subst chunks_loop.simps) (simp add: Let_def e_def tx_def out2_def)
    have "(a, b, t) \<in> set out2 \<or>
          (i + max 1 stride \<le> a \<and> a < int (length lines) \<and>
           b = min (int (length lines) - 1) (a + window - 1) \<and>
           t = strip (join ''\<newline>'' (py_slice lines a (b + 1))) \<and> t \<noteq> [])"
      using "1.IH" [OF refl True refl refl refl refl] "1.prems"
      unfolding step e_def tx_def out2_def by simp
    then show ?thesis
    proof
      assume "(a, b, t) \<in> set out2"
      then show ?thesis
        using True by (auto simp: out2_def tx_def e_def split: if_splits)
    next
      assume "i + max 1 stride \<le> a \<and> a < int (length lines) \<and>
           b = min (int (length lines) - 1) (a + window - 1) \<and>
           t = strip (join ''\<newline>'' (py_slice lines a (b + 1))) \<and> t \<noteq> []"
      then show ?thesis by auto
    qed
  qed
qed

lemma chunks_loop_mono: "set out \<subseteq> set (chunks_loop lines window stride i out)"
proof (induction lines window stride i out rule: chunks_loop.induct)
  case (1 lines window stride i out)
  show ?case
  proof (cases "i < int (length lines)")
    case False
    then show ?thesis by (subst chunks_loop.simps) simp
  next
    case True
    define e where "e = min (int (length lines) - 1) (i + window - 1)"
    define tx where "tx = strip (join ''\<newline>'' (py_slice lines i (e + 1)))"
    define out2 where "out2 = (if tx \<noteq> [] then out @ [(i, e, tx)] else out)"
    have step: "chunks_loop lines window stride i out =
                chunks_loop lines window stride (i + max 1 stride) out2"
      using True by (subst chunks_loop.simps) (simp add: Let_def e_def tx_def out2_def)
    have "set out2 \<subseteq> set (chunks_loop lines window stride (i + max 1 stride) out2)"
      using "1.IH" [OF refl True refl refl refl refl]
      unfolding e_def tx_def out2_def by simp
    moreover have "set out \<subseteq> set out2" by (auto simp: out2_def)
    ultimately show ?thesis unfolding step by blast
  qed
qed

lemma covers_mono: "set cs \<subseteq> set ds \<Longrightarrow> covers cs j \<Longrightarrow> covers ds j"
  by (auto simp: covers_def list_ex_iff)

lemma chunks_loop_covers:
  "0 \<le> i \<Longrightarrow> i \<le> int j \<Longrightarrow> j < length lines \<Longrightarrow> nonblank (lines ! j) \<Longrightarrow>
   1 \<le> window \<Longrightarrow> stride \<le> window \<Longrightarrow>
   covers (chunks_loop lines window stride i out) (int j)"
proof (induction lines window stride i out rule: chunks_loop.induct)
  case (1 lines window stride i out)
  have True: "i < int (length lines)" using "1.prems" by linarith
  define e where "e = min (int (length lines) - 1) (i + window - 1)"
  define tx where "tx = strip (join ''\<newline>'' (py_slice lines i (e + 1)))"
  define out2 where "out2 = (if tx \<noteq> [] then out @ [(i, e, tx)] else out)"
  have step: "chunks_loop lines window stride i out =
              chunks_loop lines window stride (i + max 1 stride) out2"
    using True by (subst chunks_loop.simps) (simp add: Let_def e_def tx_def out2_def)
  show ?case
  proof (cases "int j \<le> i + window - 1")
    case False
    then have "i + max 1 stride \<le> int j" using "1.prems" by linarith
    moreover have "0 \<le> i + max 1 stride" using "1.prems" by linarith
    ultimately have "covers (chunks_loop lines window stride (i + max 1 stride) out2) (int j)"
      using "1.IH" [OF refl True refl refl refl refl] "1.prems"
      unfolding e_def tx_def out2_def by simp
    then show ?thesis unfolding step .
  next
    case inwin: True
    have ie: "i \<le> e" "e < int (length lines)" "int j \<le> e"
      using "1.prems" True inwin by (auto simp: e_def)
    have sl: "py_slice lines i (e + 1) = map (\<lambda>k. lines ! k) [nat i ..< nat e + 1]"
      using py_slice_range [of i e lines] "1.prems" ie by simp
    have "j \<in> set [nat i ..< nat e + 1]"
      using "1.prems" ie by auto
    then have "lines ! j \<in> set (py_slice lines i (e + 1))"
      unfolding sl set_map by (rule imageI)
    then have "tx \<noteq> []"
      unfolding tx_def using "1.prems"(4) by (rule strip_join_nonempty)
    then have "covers out2 (int j)"
      using "1.prems" ie by (simp add: out2_def covers_def)
    moreover have "set out2 \<subseteq> set (chunks_loop lines window stride (i + max 1 stride) out2)"
      by (rule chunks_loop_mono)
    ultimately show ?thesis unfolding step by (rule covers_mono [rotated])
  qed
qed

section \<open>Sorting, slicing and the three signals\<close>

lemma set_argsort: "set (argsort xs) = {0 ..< length xs}"
  by (simp add: argsort_def)

lemma distinct_argsort: "distinct (argsort xs)"
  by (simp add: argsort_def)

lemma length_argsort: "length (argsort xs) = length xs"
  by (simp add: argsort_def)

lemma mset_argsort_desc: "mset (argsort_desc xs) = mset [0 ..< length xs]"
  by (simp add: argsort_desc_def argsort_def)

lemma set_argsort_desc: "set (argsort_desc xs) = {0 ..< length xs}"
  by (simp add: argsort_desc_def set_argsort)

lemma distinct_argsort_desc: "distinct (argsort_desc xs)"
  by (simp add: argsort_desc_def distinct_argsort)

lemma length_argsort_desc: "length (argsort_desc xs) = length xs"
  by (simp add: argsort_desc_def length_argsort)

lemma sorted_argsort_desc:
  "sorted_wrt (\<lambda>a b. b \<le> a) (map (\<lambda>i. xs ! i) (argsort_desc xs))"
proof -
  have "sorted (map (\<lambda>i. xs ! i) (argsort xs))"
    unfolding argsort_def by (rule sorted_sort_key)
  then show ?thesis
    by (simp add: argsort_desc_def sorted_wrt_rev rev_map [symmetric])
qed

lemma py_slice_prefix: "py_slice xs 0 n = take (py_index (length xs) n) xs"
  by (simp add: py_slice_def py_index_def)

lemma set_py_slice_prefix: "set (py_slice xs 0 n) \<subseteq> set xs"
  by (simp add: py_slice_prefix set_take_subset)

lemma distinct_py_slice_prefix: "distinct xs \<Longrightarrow> distinct (py_slice xs 0 n)"
  by (simp add: py_slice_prefix)

lemma length_py_slice_prefix: "length (py_slice xs 0 n) \<le> length xs"
  by (simp add: py_slice_prefix)

lemma length_py_slice_prefix_bound: "0 \<le> n \<Longrightarrow> int (length (py_slice xs 0 n)) \<le> n"
  by (simp add: py_slice_prefix py_index_def)

lemma py_slice_prefix_nonneg: "0 \<le> n \<Longrightarrow> py_slice xs 0 n = take (nat n) xs"
  by (simp add: py_slice_prefix py_index_def min_def)

text \<open>The common last line of the two score-based signals.\<close>

lemma topn_in_range:
  assumes "i \<in> set (map int (filter P (py_slice (argsort_desc scores) 0 n)))"
  shows "0 \<le> i \<and> i < int (length scores)"
proof -
  from assms obtain k where "i = int k" "k \<in> set (py_slice (argsort_desc scores) 0 n)"
    by auto
  with set_py_slice_prefix [of "argsort_desc scores" n] show ?thesis
    by (auto simp: set_argsort_desc)
qed

lemma topn_distinct: "distinct (map int (filter P (py_slice (argsort_desc scores) 0 n)))"
  by (simp add: distinct_map distinct_py_slice_prefix distinct_argsort_desc inj_on_def)

lemma length_boost_step: "length (boost_step ratio qstr p b) = length b"
  by (simp add: boost_step_def Let_def)

lemma length_fold_boost_step: "length (fold (boost_step ratio qstr) ps b) = length b"
  by (induction ps arbitrary: b) (simp_all add: length_boost_step)

lemma length_bm25_scores: "length (bm25_scores L idx query) = length (bm25_corpus_tokens idx)"
  by (simp add: bm25_scores_def Let_def length_fold_boost_step split: option.splits)

lemma lexical_topn_in_range:
  "i \<in> set (lexical_topn L idx query n) \<Longrightarrow> 0 \<le> i \<and> i < int (length (lex_texts idx))"
  unfolding lexical_topn_def Let_def
  by (auto split: if_splits dest!: topn_in_range [of _ _ _ n, simplified])

lemma bm25_topn_in_range:
  "i \<in> set (bm25_topn L idx query n) \<Longrightarrow> 0 \<le> i \<and> i < int (length (bm25_corpus_tokens idx))"
  unfolding bm25_topn_def Let_def
  using topn_in_range [of i _ "bm25_scores L idx query" n]
  by (auto simp: length_bm25_scores split: if_splits)

lemma FaissIndex_search_in_range:
  assumes "faiss_contract L" and "i \<in> set (FaissIndex_search L fi query n)"
  shows "0 \<le> i \<and> i < int (length (fi_texts fi))"
proof (cases "fi_svd fi")
  case None
  with assms(2) show ?thesis by (simp add: FaissIndex_search_def split: if_splits)
next
  case (Some d)
  show ?thesis
  proof (cases "faiss_search L (fi_texts fi) d query n")
    case None
    with Some assms(2) show ?thesis by (simp add: FaissIndex_search_def split: if_splits)
  next
    case (Some labels)
    with \<open>fi_svd fi = Some d\<close> assms(2) have "i \<in> set labels" "0 \<le> i"
      by (simp_all add: FaissIndex_search_def split: if_splits)
    moreover from assms(1) Some have "\<forall>l\<in>set labels. - 1 \<le> l \<and> l < int (length (fi_texts fi))"
      unfolding faiss_contract_def by blast
    ultimately show ?thesis by blast
  qed
qed

section \<open>The built index and the search\<close>

lemma KBIndex_init_chunks_empty:
  "chunks (KBIndex_init L cfg docs) = [] \<Longrightarrow> kb_empty (KBIndex_init L cfg docs)"
  by (simp add: KBIndex_init_def Let_def)

lemma KBIndex_init_lex_texts:
  "\<not> kb_empty (KBIndex_init L cfg docs) \<Longrightarrow>
     length (lex_texts (KBIndex_init L cfg docs)) = length (chunks (KBIndex_init L cfg docs))"
  by (auto simp: KBIndex_init_def Let_def split: if_splits)

lemma KBIndex_init_bm25:
  "bm25 (KBIndex_init L cfg docs) \<Longrightarrow>
     length (bm25_corpus_tokens (KBIndex_init L cfg docs))
       = length (chunks (KBIndex_init L cfg docs))"
  by (auto simp: KBIndex_init_def Let_def split: if_splits)

lemma fi_texts_FaissIndex_init:
  "fi_texts (FaissIndex_init L texts dims) = (if texts = [] then [''placeholder''] else texts)"
  by (simp add: FaissIndex_init_def Let_def)

lemma KBIndex_init_faiss:
  "faiss (KBIndex_init L cfg docs) = Some fi \<Longrightarrow> \<not> kb_empty (KBIndex_init L cfg docs) \<Longrightarrow>
     length (fi_texts fi) = length (chunks (KBIndex_init L cfg docs))"
  by (auto simp: KBIndex_init_def Let_def fi_texts_FaissIndex_init split: if_splits)

lemma lexical_topn_built:
  assumes "i \<in> set (lexical_topn L (KBIndex_init L cfg docs) query n)"
  shows "0 \<le> i \<and> i < int (length (chunks (KBIndex_init L cfg docs)))"
proof -
  from assms have "\<not> kb_empty (KBIndex_init L cfg docs)"
    by (auto simp: lexical_topn_def)
  with lexical_topn_in_range [OF assms] show ?thesis
    by (simp add: KBIndex_init_lex_texts)
qed

lemma bm25_topn_built:
  assumes "i \<in> set (bm25_topn L (KBIndex_init L cfg docs) query n)"
  shows "0 \<le> i \<and> i < int (length (chunks (KBIndex_init L cfg docs)))"
proof -
  from assms have "bm25 (KBIndex_init L cfg docs)"
    by (auto simp: bm25_topn_def split: if_splits)
  with bm25_topn_in_range [OF assms] show ?thesis
    by (simp add: KBIndex_init_bm25)
qed

lemma faiss_topn_built:
  assumes "faiss_contract L"
    and "i \<in> set (faiss_topn L (KBIndex_init L cfg docs) query n)"
  shows "0 \<le> i \<and> i < int (length (chunks (KBIndex_init L cfg docs)))"
proof -
  from assms(2) obtain fi where fi: "faiss (KBIndex_init L cfg docs) = Some fi"
    "\<not> kb_empty (KBIndex_init L cfg docs)" "i \<in> set (FaissIndex_search L fi query n)"
    by (cases "faiss (KBIndex_init L cfg docs)") (auto simp: faiss_topn_def split: if_splits)
  from FaissIndex_search_in_range [OF assms(1) fi(3)] KBIndex_init_faiss [OF fi(1,2)]
  show ?thesis by simp
qed

lemma signals_empty:
  assumes "kb_empty idx"
  shows "lexical_topn L idx query n = []" "bm25_topn L idx query n = []"
    "faiss_topn L idx query n = []"
  using assms by (simp_all add: lexical_topn_def bm25_topn_def faiss_topn_def split: option.splits)

lemma fold_insert_set: "fold insert xs A = set xs \<union> A"
  by (induction xs arbitrary: A) auto

lemma fused_ids_union:
  "fused_ids L idx query =
     set (lexical_topn L idx query 25) \<union> set (bm25_topn L idx query 25)
       \<union> set (faiss_topn L idx query 25)"
  by (auto simp: fused_ids_def fold_insert_set)

lemma finite_fused_ids: "finite (fused_ids L idx query)"
  by (simp add: fused_ids_union)

lemma fused_ids_built:
  assumes "faiss_contract L" and "i \<in> fused_ids L (KBIndex_init L cfg docs) query"
  shows "0 \<le> i \<and> i < int (length (chunks (KBIndex_init L cfg docs)))"
  using assms lexical_topn_built bm25_topn_built faiss_topn_built
  unfolding fused_ids_union by blast

lemma py_get_in_range: "0 \<le> i \<Longrightarrow> i < int (length xs) \<Longrightarrow> py_get xs i = Inr (xs ! nat i)"
  by (simp add: py_get_def Let_def)

lemma py_get_all_in_range:
  "\<forall>i\<in>set js. 0 \<le> i \<and> i < int (length xs) \<Longrightarrow>
     py_get_all xs js = Inr (map (\<lambda>i. xs ! nat i) js)"
  by (induction js) (simp_all add: py_get_in_range)

lemma py_get_all_length: "py_get_all xs js = Inr ys \<Longrightarrow> length ys = length js"
  by (induction js arbitrary: ys) (auto split: sum.splits)

lemma card_int_range:
  assumes "finite A" and "\<forall>i\<in>A. 0 \<le> i \<and> i < int n"
  shows "card A \<le> n"
proof -
  have "A \<subseteq> {0 ..< int n}" using assms(2) by auto
  then have "card A \<le> card {0 ..< int n}" by (intro card_mono) simp_all
  then show ?thesis by simp
qed

lemma length_tfidf_sim:
  "candidates \<noteq> [] \<Longrightarrow> length (tfidf_sim L query candidates) = length candidates"
  by (simp add: tfidf_sim_def Let_def)

lemma length_ce_scores: "length (ce_scores L m query candidates) = length candidates"
  by (simp add: ce_scores_def Let_def)

lemma length_rerank_scores:
  "candidates \<noteq> [] \<Longrightarrow> length (rerank_scores L r query candidates) = length candidates"
  by (cases r) (simp_all add: length_tfidf_sim length_ce_scores)

lemma rerank_argsort:
  "rerank L r query candidates = map int (argsort_desc (rerank_scores L r query candidates))"
  by (cases r) (simp_all add: TfidfReranker_rerank_def HFCEC_rerank_def)

lemma rerank_perm:
  assumes "candidates \<noteq> []"
  shows "mset (rerank L r query candidates) = mset (map int [0 ..< length candidates])"
  using assms by (simp add: rerank_argsort mset_argsort_desc length_rerank_scores)

lemma rerank_best_first:
  "sorted_wrt (\<lambda>a b. b \<le> a)
     (map (\<lambda>i. rerank_scores L r query candidates ! nat i) (rerank L r query candidates))"
  using sorted_argsort_desc [of "rerank_scores L r query candidates"]
  by (simp add: rerank_argsort comp_def)

lemma rerank_in_range:
  assumes "candidates \<noteq> []" and "i \<in> set (rerank L r query candidates)"
  shows "0 \<le> i \<and> i < int (length candidates)"
proof -
  from assms(2) have "i \<in># mset (rerank L r query candidates)" by simp
  then have "i \<in> set (map int [0 ..< length candidates])"
    unfolding rerank_perm [OF assms(1)] by simp
  then show ?thesis by auto
qed

lemma length_rerank:
  "candidates \<noteq> [] \<Longrightarrow> length (rerank L r query candidates) = length candidates"
  using rerank_perm [of candidates L r query] by (metis length_map length_upt mset_eq_length minus_nat.diff_0)

lemma hybrid_search_ok:
  assumes rng: "\<forall>i\<in>fused_ids L idx query. 0 \<le> i \<and> i < int (length (chunks idx))"
  shows "\<exists>r. hybrid_search L idx query top_k = Inr r \<and>
             int (length r) \<le> max 1 top_k \<and> length r \<le> length (chunks idx)"
proof (cases "strip query = [] \<or> fused_ids L idx query = {}")
  case True
  then have "hybrid_search L idx query top_k = Inr []"
    by (auto simp: hybrid_search_def Let_def)
  then show ?thesis by simp
next
  case False
  define ids where "ids = sorted_list_of_set (fused_ids L idx query)"
  define cs where "cs = map (\<lambda>i. chunks idx ! nat i) ids"
  define candidates where "candidates = zip ids (map chunk_text cs)"
  define order where "order = rerank L (reranker idx) query candidates"
  define sl where "sl = py_slice order 0 (max 1 top_k)"
  define sel where "sel = map (\<lambda>i. candidates ! nat i) sl"
  define r where "r = map (\<lambda>i. chunks idx ! nat i) (map fst sel)"
  have fin: "finite (fused_ids L idx query)" by (rule finite_fused_ids)
  have set_ids: "set ids = fused_ids L idx query" and len_ids: "length ids = card (fused_ids L idx query)"
    using fin by (simp_all add: ids_def)
  have ids_rng: "\<forall>i\<in>set ids. 0 \<le> i \<and> i < int (length (chunks idx))"
    using rng set_ids by simp
  have get1: "py_get_all (chunks idx) ids = Inr cs"
    unfolding cs_def using ids_rng by (rule py_get_all_in_range)
  have len_c: "length candidates = length ids"
    by (simp add: candidates_def cs_def)
  have ne: "candidates \<noteq> []"
    using False fin len_c len_ids by (auto simp: card_eq_0_iff)
  have sl_sub: "set sl \<subseteq> set order"
    unfolding sl_def by (rule set_py_slice_prefix)
  have sl_rng: "\<forall>i\<in>set sl. 0 \<le> i \<and> i < int (length candidates)"
    using sl_sub rerank_in_range [OF ne, of _ L "reranker idx" query]
    unfolding order_def by blast
  have get2: "py_get_all candidates sl = Inr sel"
    unfolding sel_def using sl_rng by (rule py_get_all_in_range)
  have "\<forall>i\<in>set (map fst sel). 0 \<le> i \<and> i < int (length (chunks idx))"
  proof
    fix i assume "i \<in> set (map fst sel)"
    then obtain j where j: "j \<in> set sl" "i = fst (candidates ! nat j)"
      by (auto simp: sel_def)
    with sl_rng have "nat j < length candidates" by auto
    then have "fst (candidates ! nat j) = ids ! nat j" "nat j < length ids"
      by (simp_all add: candidates_def)
    with j ids_rng show "0 \<le> i \<and> i < int (length (chunks idx))"
      by (metis nth_mem)
  qed
  then have get3: "py_get_all (chunks idx) (map fst sel) = Inr r"
    unfolding r_def by (rule py_get_all_in_range)
  have hs: "hybrid_search L idx query top_k = Inr r"
    using False get1 get2 get3
    by (simp add: hybrid_search_def Let_def ids_def [symmetric] candidates_def [symmetric]
        order_def [symmetric] sl_def [symmetric])
  have len_r: "length r = length sl" by (simp add: r_def sel_def)
  have "int (length sl) \<le> max 1 top_k"
    unfolding sl_def by (rule length_py_slice_prefix_bound) simp
  moreover have "length sl \<le> length order"
    unfolding sl_def by (rule length_py_slice_prefix)
  moreover have "length order = length candidates"
    unfolding order_def using ne by (rule length_rerank)
  moreover have "card (fused_ids L idx query) \<le> length (chunks idx)"
    using fin rng by (rule card_int_range)
  ultimately show ?thesis
    using hs len_r len_c len_ids by auto
qed

lemma blank_query: "hybrid_search L idx query top_k = Inr []" if "strip query = []"
  using that by (simp add: hybrid_search_def)

section \<open>The boost loop, chunk identity and the reduced dimension\<close>

lemma boost_step_nth:
  assumes "k < length b" and "i < length b"
  shows "boost_step ratio qstr (k, toks) b ! i =
           (if i = k then b ! i + (if toks = [] then 0 else spec_boost ratio qstr toks) else b ! i)"
  using assms by (simp add: boost_step_def spec_boost_def Let_def)

lemma fold_boost_nth:
  "k + length corpus \<le> length b \<Longrightarrow> i < length b \<Longrightarrow>
   fold (boost_step ratio qstr) (List.enumerate k corpus) b ! i =
     (if k \<le> i \<and> i < k + length corpus
      then b ! i + (if corpus ! (i - k) = [] then 0 else spec_boost ratio qstr (corpus ! (i - k)))
      else b ! i)"
proof (induction corpus arbitrary: k b)
  case Nil
  then show ?case by simp
next
  case (Cons t ts)
  let ?b = "boost_step ratio qstr (k, t) b"
  have len: "length ?b = length b" by (rule length_boost_step)
  have k: "k < length b" using Cons.prems by simp
  have "fold (boost_step ratio qstr) (List.enumerate k (t # ts)) b ! i
        = fold (boost_step ratio qstr) (List.enumerate (Suc k) ts) ?b ! i"
    by simp
  also have "\<dots> = (if Suc k \<le> i \<and> i < Suc k + length ts
      then ?b ! i + (if ts ! (i - Suc k) = [] then 0 else spec_boost ratio qstr (ts ! (i - Suc k)))
      else ?b ! i)"
    using Cons.prems by (intro Cons.IH) (simp_all add: len)
  also have "\<dots> = (if k \<le> i \<and> i < k + length (t # ts)
      then b ! i + (if (t # ts) ! (i - k) = [] then 0 else spec_boost ratio qstr ((t # ts) ! (i - k)))
      else b ! i)"
  proof (cases "i = k")
    case True
    then show ?thesis using k by (simp add: boost_step_nth)
  next
    case False
    then have "(t # ts) ! (i - k) = ts ! (i - Suc k)" if "k \<le> i"
      using that False by (simp add: nth_Cons')
    with False show ?thesis
      using k Cons.prems(2) by (auto simp: boost_step_nth)
  qed
  finally show ?case .
qed

lemma spec_boost_no_tokens: "\<forall>a. ratio a [] \<le> 85 \<Longrightarrow> spec_boost ratio qstr [] = 0"
proof -
  assume "\<forall>a. ratio a [] \<le> 85"
  then have "ratio qstr [] \<le> 85" by blast
  then show ?thesis by (simp add: spec_boost_def Let_def)
qed

lemma bm25_scores_spec:
  assumes "fuzz L = Some ratio" and "length (tokenize query) \<le> 3"
    and "\<forall>a. ratio a [] \<le> 85"
  shows "bm25_scores L idx query = spec_boosted_scores L ratio idx query"
proof (rule nth_equalityI)
  show "length (bm25_scores L idx query) = length (spec_boosted_scores L ratio idx query)"
    by (simp add: length_bm25_scores spec_boosted_scores_def Let_def)
next
  fix i assume "i < length (bm25_scores L idx query)"
  then have i: "i < length (bm25_corpus_tokens idx)" by (simp add: length_bm25_scores)
  let ?corpus = "bm25_corpus_tokens idx"
  let ?qstr = "join '' '' (tokenize query)"
  have "fold (boost_step ratio ?qstr) (List.enumerate 0 ?corpus) (replicate (length ?corpus) 0) ! i
        = (if ?corpus ! i = [] then 0 else spec_boost ratio ?qstr (?corpus ! i))"
    using i fold_boost_nth [of 0 ?corpus "replicate (length ?corpus) 0" i ratio ?qstr] by simp
  also have "\<dots> = spec_boost ratio ?qstr (?corpus ! i)"
    using spec_boost_no_tokens [of ratio, OF assms(3)] by simp
  finally show "bm25_scores L idx query ! i = spec_boosted_scores L ratio idx query ! i"
    using i assms(1,2)
    by (simp add: bm25_scores_def spec_boosted_scores_def Let_def length_fold_boost_step)
qed

lemma filter_take_sorted_desc:
  "sorted_wrt (\<lambda>a b. f b \<le> f a) xs \<Longrightarrow>
     filter (\<lambda>i. (0::real) < f i) (take m xs) = take m (filter (\<lambda>i. 0 < f i) xs)"
proof (induction xs arbitrary: m)
  case Nil
  then show ?case by simp
next
  case (Cons x xs)
  show ?case
  proof (cases m)
    case 0
    then show ?thesis by simp
  next
    case (Suc m')
    show ?thesis
    proof (cases "0 < f x")
      case True
      with Cons Suc show ?thesis by simp
    next
      case False
      with Cons.prems have "\<forall>y\<in>set xs. \<not> 0 < f y" by fastforce
      then have "filter (\<lambda>i. 0 < f i) xs = []" "filter (\<lambda>i. 0 < f i) (take m' xs) = []"
        by (auto simp: filter_empty_conv dest: in_set_takeD)
      with False Suc show ?thesis by simp
    qed
  qed
qed

lemma topn_spec:
  assumes "0 \<le> n"
  shows "map int (filter (\<lambda>i. 0 < scores ! i) (py_slice (argsort_desc scores) 0 n))
           = spec_top_positive n scores"
proof -
  have "sorted_wrt (\<lambda>a b. scores ! b \<le> scores ! a) (argsort_desc scores)"
    using sorted_argsort_desc [of scores] by (simp add: sorted_wrt_map)
  then show ?thesis
    using assms by (simp add: spec_top_positive_def py_slice_prefix_nonneg filter_take_sorted_desc)
qed

lemma chunks_loop_distinct_starts:
  "distinct (map fst out) \<Longrightarrow> \<forall>a\<in>set (map fst out). a < i \<Longrightarrow>
     distinct (map fst (chunks_loop lines window stride i out))"
proof (induction lines window stride i out rule: chunks_loop.induct)
  case (1 lines window stride i out)
  show ?case
  proof (cases "i < int (length lines)")
    case False
    with "1.prems" show ?thesis by (subst chunks_loop.simps) simp
  next
    case True
    define e where "e = min (int (length lines) - 1) (i + window - 1)"
    define tx where "tx = strip (join ''\<newline>'' (py_slice lines i (e + 1)))"
    define out2 where "out2 = (if tx \<noteq> [] then out @ [(i, e, tx)] else out)"
    have step: "chunks_loop lines window stride i out =
                chunks_loop lines window stride (i + max 1 stride) out2"
      using True by (subst chunks_loop.simps) (simp add: Let_def e_def tx_def out2_def)
    have d: "distinct (map fst out2)"
      using "1.prems" by (auto simp: out2_def)
    have b: "\<forall>a\<in>set (map fst out2). a < i + max 1 stride"
      using "1.prems"(2) by (auto simp: out2_def)
    show ?thesis
      unfolding step
      using "1.IH" [OF refl True refl refl refl refl] d b
      unfolding e_def tx_def out2_def by simp
  qed
qed

lemma distinct_make_chunks_starts: "distinct (map fst (make_chunks lines window stride))"
  unfolding make_chunks_def by (rule chunks_loop_distinct_starts) simp_all

lemma distinct_doc_chunks: "distinct (doc_chunks d)"
proof -
  have "map start_line (doc_chunks d) = map fst (make_chunks (snd d) 4 3)"
    by (simp add: doc_chunks_def split_beta comp_def)
  then have "distinct (map start_line (doc_chunks d))"
    by (simp add: distinct_make_chunks_starts)
  then show ?thesis by (simp add: distinct_map)
qed

lemma doc_id_doc_chunks: "c \<in> set (doc_chunks d) \<Longrightarrow> doc_id c = fst d"
  by (auto simp: doc_chunks_def)

lemma distinct_concat_doc_chunks:
  "distinct (map fst docs) \<Longrightarrow> distinct (concat (map doc_chunks docs))"
proof (induction docs)
  case Nil
  then show ?case by simp
next
  case (Cons d ds)
  have "set (doc_chunks d) \<inter> set (concat (map doc_chunks ds)) = {}"
  proof (rule ccontr)
    assume "set (doc_chunks d) \<inter> set (concat (map doc_chunks ds)) \<noteq> {}"
    then obtain c d' where "c \<in> set (doc_chunks d)" "d' \<in> set ds" "c \<in> set (doc_chunks d')"
      by auto
    then have "fst d = fst d'" "d' \<in> set ds"
      using doc_id_doc_chunks by metis+
    with Cons.prems show False by (auto simp: image_iff)
  qed
  with Cons show ?case by (simp add: distinct_doc_chunks)
qed

lemma chunks_KBIndex_init: "chunks (KBIndex_init L cfg docs) = concat (map doc_chunks docs)"
  by (simp add: KBIndex_init_def Let_def)

lemma card_chunks_built:
  "distinct (map fst docs) \<Longrightarrow>
     card (set (chunks (KBIndex_init L cfg docs))) = length (chunks (KBIndex_init L cfg docs))"
  unfolding chunks_KBIndex_init by (intro distinct_card distinct_concat_doc_chunks)

lemma FaissIndex_init_enabled:
  assumes "fi_enabled (FaissIndex_init L texts dims)"
  shows "fi_svd (FaissIndex_init L texts dims)
           = Some (eff_dims dims (int (tfidf_n_features L (fi_texts (FaissIndex_init L texts dims)))))"
  using assms by (auto simp: FaissIndex_init_def Let_def split: if_splits)

lemma eff_dims_bounds:
  "9 \<le> n_features \<Longrightarrow> 2 \<le> dims \<Longrightarrow>
     2 \<le> eff_dims dims n_features \<and> eff_dims dims n_features < n_features"
  by (simp add: eff_dims_def)

section \<open>The claims about the chunker\<close>

text \<open>
  Claim C10. \<open>make_chunks\<close> terminates on every input, for every window and every
  stride (zero and negative strides included): the loop index grows by
  \<open>max 1 stride \<ge> 1\<close> in each iteration, so \<open>n = length lines\<close> iterations of the body
  are always enough. Stated on the fuel-bounded loop: with fuel \<open>n\<close> it returns, and it
  returns what the unbounded loop returns.
\<close>

theorem make_chunks_terminates:
  "make_chunks_fuel (length lines) lines window stride = Some (make_chunks lines window stride)"
  unfolding make_chunks_fuel_def make_chunks_def by (rule chunks_loop_fuel_enough) simp

theorem make_chunks_terminates_witness:
  "make_chunks_fuel (length [''a'', ''b'']) [''a'', ''b''] 4 0
     = Some [(0, 1, ''a\<newline>b''), (1, 1, ''b'')]"
proof -
  have "make_chunks [''a'', ''b''] 4 0 = [(0, 1, ''a\<newline>b''), (1, 1, ''b'')]"
    by code_simp
  with make_chunks_terminates [of "[''a'', ''b'']" 4 0] show ?thesis by simp
qed

text \<open>
  Claim C4, as the code has it. The text of every chunk that \<open>make_chunks\<close> emits is the
  newline-joined slice \<open>lines[start : end + 1]\<close> after \<open>strip()\<close>, and it is not empty;
  it is therefore the joined slice itself only when that slice neither starts nor ends
  in whitespace. For a window of at least 1 the bounds satisfy
  \<open>0 \<le> start \<le> end \<le> n - 1\<close> and the slice is exactly the lines \<open>start .. end\<close>
  inclusive.
\<close>

theorem make_chunks_text_stripped:
  assumes "(s, e, txt) \<in> set (make_chunks lines window stride)"
  shows "txt = strip (join ''\<newline>'' (py_slice lines s (e + 1))) \<and> txt \<noteq> [] \<and>
         (1 \<le> window \<longrightarrow>
            0 \<le> s \<and> s \<le> e \<and> e < int (length lines) \<and>
            py_slice lines s (e + 1) = map (\<lambda>k. lines ! k) [nat s ..< nat e + 1])"
proof -
  from chunks_loop_elems [OF assms [unfolded make_chunks_def]]
  have *: "0 \<le> s" "s < int (length lines)"
    "e = min (int (length lines) - 1) (s + window - 1)"
    "txt = strip (join ''\<newline>'' (py_slice lines s (e + 1)))" "txt \<noteq> []"
    by auto
  have "s \<le> e \<and> e < int (length lines) \<and>
        py_slice lines s (e + 1) = map (\<lambda>k. lines ! k) [nat s ..< nat e + 1]"
    if w: "1 \<le> window"
  proof -
    have "s \<le> e" "e < int (length lines)" using *(1-3) w by auto
    then show ?thesis using *(1) py_slice_range [of s e lines] by simp
  qed
  with *(1,4,5) show ?thesis by blast
qed

theorem make_chunks_text_stripped_witness:
  "(0, 1, ''a\<newline>b'') \<in> set (make_chunks ['' a'', ''b ''] 4 3) \<and> (1::int) \<le> 4 \<and>
   ''a\<newline>b'' = strip (join ''\<newline>'' (py_slice ['' a'', ''b ''] 0 (1 + 1))) \<and>
   py_slice ['' a'', ''b ''] 0 (1 + 1) = ['' a'', ''b '']"
proof -
  have m: "(0, 1, ''a\<newline>b'') \<in> set (make_chunks ['' a'', ''b ''] 4 3)"
    by code_simp
  from make_chunks_text_stripped [OF m] m show ?thesis by simp
qed

text \<open>
  The claim as written (the text equals the joined slice) fails on a line with leading
  whitespace: the document \<open>[" a"]\<close> gives the chunk \<open>(0, 0, "a")\<close>, while the joined
  slice of lines 0..0 is \<open>" a"\<close>.
\<close>

theorem make_chunks_text_counterexample:
  "make_chunks ['' a''] 4 3 = [(0, 0, ''a'')] \<and>
   join ''\<newline>'' (py_slice ['' a''] 0 (0 + 1)) = '' a'' \<and> ''a'' \<noteq> '' a''"
  by code_simp

lemma make_chunks_covers_line:
  assumes "1 \<le> window" and "stride \<le> window"
    and "j < length lines" and "nonblank (lines ! j)"
  shows "covers (make_chunks lines window stride) (int j)"
  unfolding make_chunks_def using assms by (intro chunks_loop_covers) simp_all

lemma not_noise_nonblank: "\<not> is_noise_line line \<Longrightarrow> nonblank line"
  by (auto simp: is_noise_line_def nonblank_def Let_def split: if_splits)

lemma text_lines_nonblank: "\<forall>l\<in>set (text_lines raw). nonblank l"
  by (auto simp: text_lines_def not_noise_nonblank)

lemma extracted_lines_nonblank: "\<forall>l\<in>set (extracted_lines raw). nonblank l"
  by (auto simp: extracted_lines_def not_noise_nonblank)

text \<open>
  Claim C2. A document is a list of cleaned lines: the loader drops every blank line
  (\<open>text_lines_nonblank\<close>, \<open>extracted_lines_nonblank\<close>), and a window holds at least one
  line. For every such document of \<open>n\<close> lines, chunking with window \<open>w\<close> and stride
  \<open>s \<le> w\<close> produces chunks whose ranges \<open>[start, end]\<close> together cover every line index
  in \<open>[0, n - 1]\<close>.
\<close>

theorem make_chunks_covers_document:
  assumes "\<forall>l\<in>set lines. nonblank l" and "1 \<le> window" and "stride \<le> window"
  shows "\<forall>j<length lines. covers (make_chunks lines window stride) (int j)"
  using assms by (auto intro: make_chunks_covers_line)

theorem make_chunks_covers_document_witness:
  "text_lines [''a'', '' '', ''b'', ''www.example.com'', ''c'', ''d'', ''e''] 
     = [''a'', ''b'', ''c'', ''d'', ''e''] \<and>
   list_all nonblank [''a'', ''b'', ''c'', ''d'', ''e''] \<and> (1::int) \<le> 4 \<and> (3::int) \<le> 4 \<and>
   make_chunks [''a'', ''b'', ''c'', ''d'', ''e''] 4 3
     = [(0, 3, ''a\<newline>b\<newline>c\<newline>d''), (3, 4, ''d\<newline>e'')] \<and>
   list_all (\<lambda>j. covers (make_chunks [''a'', ''b'', ''c'', ''d'', ''e''] 4 3) (int j))
     [0 ..< length [''a'', ''b'', ''c'', ''d'', ''e'']]"
proof -
  have t: "text_lines [''a'', '' '', ''b'', ''www.example.com'', ''c'', ''d'', ''e'']
     = [''a'', ''b'', ''c'', ''d'', ''e'']"
    by code_simp
  have n: "list_all nonblank [''a'', ''b'', ''c'', ''d'', ''e'']"
    by code_simp
  have m: "make_chunks [''a'', ''b'', ''c'', ''d'', ''e''] 4 3
     = [(0, 3, ''a\<newline>b\<newline>c\<newline>d''), (3, 4, ''d\<newline>e'')]"
    by code_simp
  have "\<forall>l\<in>set [''a'', ''b'', ''c'', ''d'', ''e'']. nonblank l"
    using n by (simp only: list_all_iff)
  from make_chunks_covers_document [OF this, of 4 3]
  have "list_all (\<lambda>j. covers (make_chunks [''a'', ''b'', ''c'', ''d'', ''e''] 4 3) (int j))
     [0 ..< length [''a'', ''b'', ''c'', ''d'', ''e'']]"
    by (simp only: list_all_iff set_upt atLeastLessThan_iff) simp
  with t n m show ?thesis by simp
qed

section \<open>The claims about the index\<close>

lemma demo_libs_contract: "faiss_contract demo_libs"
  by (auto simp: faiss_contract_def demo_libs_def dest!: in_set_takeD)

lemma tfidf_rerank_no_candidates: "TfidfReranker_rerank L query [] = [0]"
  by (simp add: TfidfReranker_rerank_def tfidf_sim_def argsort_desc_def argsort_def)

text \<open>
  Claim C1, as the code has it. On an index built by \<open>KBIndex.__init__\<close>, for every
  query and every integer \<open>top_k\<close>, \<open>hybrid_search\<close> returns (no lookup raises) a
  sequence of at most \<open>max(1, top_k)\<close> chunks, hence at most \<open>top_k\<close> when
  \<open>top_k \<ge> 1\<close>, and of at most as many chunks as the index holds. When the documents
  have pairwise different names, as the files of one directory do, the chunks of the
  index are pairwise different and that number is the number of distinct chunks.
\<close>

theorem hybrid_search_top_k_bound:
  fixes L cfg docs
  defines "idx \<equiv> KBIndex_init L cfg docs"
  assumes "faiss_contract L"
  shows "\<exists>r. hybrid_search L idx query top_k = Inr r \<and>
             int (length r) \<le> max 1 top_k \<and> length r \<le> length (chunks idx) \<and>
             (distinct (map fst docs) \<longrightarrow> length r \<le> card (set (chunks idx)))"
proof -
  have "\<exists>r. hybrid_search L idx query top_k = Inr r \<and>
             int (length r) \<le> max 1 top_k \<and> length r \<le> length (chunks idx)"
    unfolding idx_def using assms(2) by (intro hybrid_search_ok ballI fused_ids_built)
  then obtain r where "hybrid_search L idx query top_k = Inr r"
    "int (length r) \<le> max 1 top_k" "length r \<le> length (chunks idx)"
    by blast
  then show ?thesis
    using card_chunks_built [of docs L cfg] unfolding idx_def by auto
qed

theorem hybrid_search_top_k_bound_witness:
  "faiss_contract demo_libs \<and> distinct (map fst demo_docs) \<and>
   hybrid_search demo_libs (KBIndex_init demo_libs demo_config demo_docs) ''What is Alpha?'' 1
     = Inr [\<lparr>doc_id = ''a.md'', start_line = 0, end_line = 1,
              chunk_text = ''Alpha is a test term.\<newline>Beta is unrelated.''\<rparr>] \<and>
   card (set (chunks (KBIndex_init demo_libs demo_config demo_docs))) = 1"
proof -
  have e: "hybrid_search demo_libs (KBIndex_init demo_libs demo_config demo_docs) ''What is Alpha?'' 1
     = Inr [\<lparr>doc_id = ''a.md'', start_line = 0, end_line = 1,
              chunk_text = ''Alpha is a test term.\<newline>Beta is unrelated.''\<rparr>]"
    by code_simp
  have d: "distinct (map fst demo_docs)" by (simp add: demo_docs_def)
  from hybrid_search_top_k_bound [OF demo_libs_contract, of demo_config demo_docs "''What is Alpha?''" 1]
  have "card (set (chunks (KBIndex_init demo_libs demo_config demo_docs))) \<ge> 1"
    unfolding e using d by simp
  moreover have "card (set (chunks (KBIndex_init demo_libs demo_config demo_docs))) \<le> 1"
    by code_simp
  ultimately show ?thesis using e d demo_libs_contract by simp
qed

text \<open>
  The claim as written (length at most \<open>k\<close> for every integer \<open>k\<close>) fails at
  \<open>k = 0\<close>: the selection is \<open>order[: max(1, top_k)]\<close>, so one chunk comes back.
\<close>

theorem hybrid_search_top_k_counterexample:
  "hybrid_search demo_libs (KBIndex_init demo_libs demo_config demo_docs) ''What is Alpha?'' 0
     = Inr [\<lparr>doc_id = ''a.md'', start_line = 0, end_line = 1,
              chunk_text = ''Alpha is a test term.\<newline>Beta is unrelated.''\<rparr>] \<and>
   \<not> int (length [\<lparr>doc_id = ''a.md'', start_line = 0, end_line = 1,
              chunk_text = ''Alpha is a test term.\<newline>Beta is unrelated.''\<rparr>]) \<le> 0"
  by code_simp

text \<open>
  Claim C5. The claim says that \<open>rerank\<close> returns a permutation of the candidate
  positions for every query and every candidate list; the code does not, in two ways.
  With no candidate the TF-IDF reranker falls back to the texts \<open>[""]\<close> and returns
  \<open>[0]\<close>, which is no position of the empty list and not what its docstring promises
  (indices into \<open>candidates\<close>); the cross-encoder variant returns \<open>[]\<close> there. And the
  TF-IDF reranker fits its vectorizer outside any \<open>try\<close>: for the query \<open>the\<close> and the
  one candidate \<open>is the\<close>, which \<open>hybrid_search\<close> passes on the corpus \<open>mixed_docs\<close>, the
  fit finds no vocabulary and the call raises \<open>ValueError\<close>.
\<close>

theorem rerank_breaks_contract:
  "rerank L TfidfReranker query [] = [0] \<and> rerank L (HFCEC m) query [] = [] \<and>
   rerank_call demo_libs TfidfReranker ''the'' [(0, ''is the'')] = Inl ValueError \<and>
   KBIndex_call demo_libs no_faiss_config mixed_docs
     = Inr (KBIndex_init demo_libs no_faiss_config mixed_docs) \<and>
   hybrid_search_call demo_libs (KBIndex_init demo_libs no_faiss_config mixed_docs) ''the'' 3
     = Inl ValueError"
proof -
  have "rerank L (HFCEC m) query [] = []"
    by (simp add: HFCEC_rerank_def ce_scores_def argsort_desc_def argsort_def)
  moreover have "rerank_call demo_libs TfidfReranker ''the'' [(0, ''is the'')] = Inl ValueError"
    by code_simp
  moreover have "KBIndex_call demo_libs no_faiss_config mixed_docs
     = Inr (KBIndex_init demo_libs no_faiss_config mixed_docs)"
    by code_simp
  moreover have
    "hybrid_search_call demo_libs (KBIndex_init demo_libs no_faiss_config mixed_docs) ''the'' 3
       = Inl ValueError"
    by code_simp
  ultimately show ?thesis by (simp add: tfidf_rerank_no_candidates)
qed

theorem rerank_breaks_contract_witness:
  "rerank demo_libs TfidfReranker ''alpha'' [] = [0] \<and>
   mset [0 :: int] \<noteq> mset (map int [0 ..< length ([] :: (int \<times> string) list)]) \<and>
   hybrid_search_call demo_libs (KBIndex_init demo_libs no_faiss_config mixed_docs) ''the'' 3
     = Inl ValueError"
  using rerank_breaks_contract [of demo_libs "''alpha''"] by simp

text \<open>
  Claim C7. A query is whitespace-only when each of its characters is whitespace; the
  empty string and three spaces are two such queries. For every such query and every
  integer \<open>top_k\<close>, \<open>KBIndex.hybrid_search\<close> returns the empty sequence on every index,
  and so does the module-level search when an index is live or when its build returns.
  When no index is live the facade builds one before the query is looked at, and the
  \<open>ValueError\<close> of the vectorizer on a corpus without vocabulary leaves through the
  search: there the code raises where the claim says it returns the empty sequence.
\<close>

theorem blank_query_law:
  assumes "\<forall>c\<in>set query. isspace c"
  shows "hybrid_search L idx query top_k = Inr [] \<and>
         hybrid_search_call L idx query top_k = Inr [] \<and>
         search L cfg docs (Some idx) query top_k = (Inr [], Some idx) \<and>
         search L cfg docs None query top_k =
           (case KBIndex_call L cfg docs of
              Inl e \<Rightarrow> (Inl e, None)
            | Inr built \<Rightarrow> (Inr [], Some built))"
proof -
  from assms have "strip query = []" by (simp add: strip_eq_Nil_iff)
  then show ?thesis
    by (simp add: blank_query hybrid_search_call_def search_def get_index_def split: sum.splits)
qed

theorem blank_query_law_witness:
  "list_all isspace ''   '' \<and> list_all isspace '''' \<and>
   hybrid_search demo_libs (KBIndex_init demo_libs demo_config demo_docs) ''   '' 3 = Inr [] \<and>
   fst (search demo_libs demo_config demo_docs None '''' 0) = Inr [] \<and>
   KBIndex_call demo_libs demo_config stop_word_docs = Inl ValueError \<and>
   search demo_libs demo_config stop_word_docs None ''   '' 3 = (Inl ValueError, None)"
proof -
  have w: "list_all isspace ''   ''" "list_all isspace ''''"
    by code_simp+
  have b: "KBIndex_call demo_libs demo_config stop_word_docs = Inl ValueError"
    by code_simp
  have ok: "KBIndex_call demo_libs demo_config demo_docs
              = Inr (KBIndex_init demo_libs demo_config demo_docs)"
    by code_simp
  have h: "\<forall>c\<in>set ''   ''. isspace c" "\<forall>c\<in>set ''''. isspace c"
    using w by (simp_all only: list_all_iff)
  from blank_query_law [OF h(1), of demo_libs _ 3 demo_config stop_word_docs]
    blank_query_law [OF h(1), of demo_libs "KBIndex_init demo_libs demo_config demo_docs" 3]
    blank_query_law [OF h(2), of demo_libs _ 0 demo_config demo_docs]
    w b ok
  show ?thesis by simp
qed

text \<open>
  Claim C8. For every index and query, the candidate set that \<open>hybrid_search\<close>
  assembles contains every index that \<open>lexical_topn\<close> returns, and it is exactly the
  union of the three signals' top-25 results.
\<close>

theorem fusion_superset_of_lexical:
  "set (lexical_topn L idx query 25) \<subseteq> fused_ids L idx query \<and>
   fused_ids L idx query =
     set (lexical_topn L idx query 25) \<union> set (bm25_topn L idx query 25)
       \<union> set (faiss_topn L idx query 25)"
  by (auto simp: fused_ids_def fold_insert_set)

theorem fusion_superset_of_lexical_witness:
  "set (lexical_topn demo_libs (KBIndex_init demo_libs demo_config demo_docs) ''alpha'' 25)
     \<subseteq> fused_ids demo_libs (KBIndex_init demo_libs demo_config demo_docs) ''alpha'' \<and>
   fused_ids demo_libs (KBIndex_init demo_libs demo_config demo_docs) ''alpha'' =
     set (lexical_topn demo_libs (KBIndex_init demo_libs demo_config demo_docs) ''alpha'' 25)
     \<union> set (bm25_topn demo_libs (KBIndex_init demo_libs demo_config demo_docs) ''alpha'' 25)
     \<union> set (faiss_topn demo_libs (KBIndex_init demo_libs demo_config demo_docs) ''alpha'' 25)"
  by (rule fusion_superset_of_lexical)

text \<open>
  Claim C9. On an index built by \<open>KBIndex.__init__\<close>, every index returned by
  \<open>lexical_topn\<close>, \<open>bm25_topn\<close> and \<open>faiss_topn\<close> lies in \<open>[0, len(chunks))\<close>, so
  \<open>hybrid_search\<close> returns without an \<open>IndexError\<close>; and when the index has no
  chunk, the three operations return the empty list. For \<open>faiss_topn\<close> this rests on
  the library returning only row numbers and \<open>-1\<close>.
\<close>

theorem signals_in_bounds:
  fixes L cfg docs
  defines "idx \<equiv> KBIndex_init L cfg docs"
  assumes "faiss_contract L"
  shows "(\<forall>i\<in>set (lexical_topn L idx query n). 0 \<le> i \<and> i < int (length (chunks idx))) \<and>
         (\<forall>i\<in>set (bm25_topn L idx query n). 0 \<le> i \<and> i < int (length (chunks idx))) \<and>
         (\<forall>i\<in>set (faiss_topn L idx query n). 0 \<le> i \<and> i < int (length (chunks idx))) \<and>
         (\<exists>r. hybrid_search L idx query top_k = Inr r) \<and>
         (chunks idx = [] \<longrightarrow>
            lexical_topn L idx query n = [] \<and> bm25_topn L idx query n = [] \<and>
            faiss_topn L idx query n = [])"
proof -
  have "\<exists>r. hybrid_search L idx query top_k = Inr r"
    using hybrid_search_ok [of L idx query top_k] fused_ids_built [OF assms(2)]
    unfolding idx_def by blast
  moreover have "kb_empty idx" if "chunks idx = []"
    using that unfolding idx_def by (rule KBIndex_init_chunks_empty)
  then have "chunks idx = [] \<longrightarrow>
            lexical_topn L idx query n = [] \<and> bm25_topn L idx query n = [] \<and>
            faiss_topn L idx query n = []"
    by (simp add: signals_empty)
  moreover have "\<forall>i\<in>set (lexical_topn L idx query n). 0 \<le> i \<and> i < int (length (chunks idx))"
    unfolding idx_def by (intro ballI lexical_topn_built)
  moreover have "\<forall>i\<in>set (bm25_topn L idx query n). 0 \<le> i \<and> i < int (length (chunks idx))"
    unfolding idx_def by (intro ballI bm25_topn_built)
  moreover have "\<forall>i\<in>set (faiss_topn L idx query n). 0 \<le> i \<and> i < int (length (chunks idx))"
    unfolding idx_def using assms(2) by (intro ballI faiss_topn_built)
  ultimately show ?thesis by blast
qed

theorem signals_in_bounds_witness:
  "faiss_contract demo_libs \<and>
   lexical_topn demo_libs (KBIndex_init demo_libs demo_config demo_docs) ''What is Alpha?'' 25 = [0] \<and>
   bm25_topn demo_libs (KBIndex_init demo_libs demo_config demo_docs) ''What is Alpha?'' 25 = [0] \<and>
   faiss_topn demo_libs (KBIndex_init demo_libs demo_config demo_docs) ''What is Alpha?'' 25 = [0] \<and>
   0 < length (chunks (KBIndex_init demo_libs demo_config demo_docs)) \<and>
   chunks (KBIndex_init demo_libs demo_config []) = [] \<and>
   lexical_topn demo_libs (KBIndex_init demo_libs demo_config []) ''What is Alpha?'' 25 = [] \<and>
   bm25_topn demo_libs (KBIndex_init demo_libs demo_config []) ''What is Alpha?'' 25 = [] \<and>
   faiss_topn demo_libs (KBIndex_init demo_libs demo_config []) ''What is Alpha?'' 25 = []"
proof -
  have e: "lexical_topn demo_libs (KBIndex_init demo_libs demo_config demo_docs) ''What is Alpha?'' 25 = [0]"
    "bm25_topn demo_libs (KBIndex_init demo_libs demo_config demo_docs) ''What is Alpha?'' 25 = [0]"
    "faiss_topn demo_libs (KBIndex_init demo_libs demo_config demo_docs) ''What is Alpha?'' 25 = [0]"
    "chunks (KBIndex_init demo_libs demo_config []) = []"
    by code_simp+
  from signals_in_bounds [OF demo_libs_contract, of demo_config demo_docs "''What is Alpha?''" 25 1]
    signals_in_bounds [OF demo_libs_contract, of demo_config "[]" "''What is Alpha?''" 25 1]
    e demo_libs_contract
  show ?thesis by simp
qed

text \<open>
  Claim C6. In \<open>bm25_topn\<close>, on an index with a BM25 signal and for a non-blank
  query, when the fuzzy library is available and the query has at most 3 tokens, the
  scores that are sorted are the BM25 scores with \<open>0.15 * s\<close> added for every chunk
  whose joined tokens have similarity \<open>s > 0.85\<close> with the joined query tokens, and the
  result is the first \<open>N\<close> strictly positive entries in descending order of score.
  The code skips chunks without tokens; the library gives those similarity 0, which is
  the hypothesis on \<open>ratio\<close>.
\<close>

theorem bm25_topn_fuzzy_boost:
  assumes "fuzz L = Some ratio" and "length (tokenize query) \<le> 3"
    and "bm25 idx" and "\<not> kb_empty idx" and "strip query \<noteq> []" and "0 \<le> n"
    and "\<forall>a. ratio a [] \<le> 85"
  shows "bm25_scores L idx query = spec_boosted_scores L ratio idx query \<and>
         bm25_topn L idx query n = spec_top_positive n (spec_boosted_scores L ratio idx query)"
proof -
  have s: "bm25_scores L idx query = spec_boosted_scores L ratio idx query"
    using assms(1,2,7) by (rule bm25_scores_spec)
  have "bm25_topn L idx query n
        = map int (filter (\<lambda>i. 0 < bm25_scores L idx query ! i)
                     (py_slice (argsort_desc (bm25_scores L idx query)) 0 n))"
    using assms(3-5) by (simp add: bm25_topn_def Let_def)
  also have "\<dots> = spec_top_positive n (bm25_scores L idx query)"
    using assms(6) by (rule topn_spec)
  finally show ?thesis using s by simp
qed

theorem bm25_topn_fuzzy_boost_witness:
  "fuzz demo_libs = Some demo_ratio \<and> length (tokenize ''alpha'') \<le> 3 \<and>
   bm25 (KBIndex_init demo_libs demo_config [(''a.md'', [''Alpha''])]) \<and>
   \<not> kb_empty (KBIndex_init demo_libs demo_config [(''a.md'', [''Alpha''])]) \<and>
   strip ''alpha'' \<noteq> [] \<and> (0::int) \<le> 25 \<and> (\<forall>a. demo_ratio a [] \<le> 85) \<and>
   bm25_scores demo_libs (KBIndex_init demo_libs demo_config [(''a.md'', [''Alpha''])]) ''alpha''
     = [1.15] \<and>
   spec_boosted_scores demo_libs demo_ratio
       (KBIndex_init demo_libs demo_config [(''a.md'', [''Alpha''])]) ''alpha'' = [1.15] \<and>
   bm25_topn demo_libs (KBIndex_init demo_libs demo_config [(''a.md'', [''Alpha''])]) ''alpha'' 25
     = [0]"
proof -
  have f: "fuzz demo_libs = Some demo_ratio" by (simp add: demo_libs_def)
  have h: "length (tokenize ''alpha'') \<le> 3"
    "bm25 (KBIndex_init demo_libs demo_config [(''a.md'', [''Alpha''])])"
    "\<not> kb_empty (KBIndex_init demo_libs demo_config [(''a.md'', [''Alpha''])])"
    "strip ''alpha'' \<noteq> []"
    by code_simp+
  have r: "\<forall>a. demo_ratio a [] \<le> 85" by (simp add: demo_ratio_def)
  have e: "spec_boosted_scores demo_libs demo_ratio
       (KBIndex_init demo_libs demo_config [(''a.md'', [''Alpha''])]) ''alpha'' = [1.15]"
    "spec_top_positive 25 [1.15] = [0]"
    by code_simp+
  from bm25_topn_fuzzy_boost [OF f h _ r, of 25] f h r e show ?thesis by simp
qed

text \<open>
  Claim C3. The code computes \<open>min(dims, max(2, n_features - 1, 8))\<close>
  (\<open>FaissIndex_init_enabled\<close>), and its own comment asks for a value of at least 2 and
  strictly below \<open>n_features\<close>. The formula gives that only from 9 features and 2
  configured dimensions on (\<open>eff_dims_bounds\<close>). With \<open>SVD_COMPONENTS = 1\<close> and three
  features the index enables itself with one dimension; with the default 256 and three
  features the value is 8, above the vocabulary size; with eight features it is 8, not
  below it.
\<close>

theorem eff_dims_misses_documented_bounds:
  "eff_dims 1 3 = 1 \<and> \<not> 2 \<le> eff_dims 1 3 \<and>
   fi_enabled (FaissIndex_init (demo_libs\<lparr>tfidf_n_features := \<lambda>texts. 3\<rparr>) [''alpha beta''] 1) \<and>
   fi_svd (FaissIndex_init (demo_libs\<lparr>tfidf_n_features := \<lambda>texts. 3\<rparr>) [''alpha beta''] 1)
     = Some 1 \<and>
   eff_dims 256 3 = 8 \<and> \<not> eff_dims 256 3 < 3 \<and>
   eff_dims 256 8 = 8 \<and> \<not> eff_dims 256 8 < 8"
  by (simp add: eff_dims_def FaissIndex_init_def demo_libs_def)

theorem eff_dims_misses_documented_bounds_witness:
  "fi_svd (FaissIndex_init (demo_libs\<lparr>tfidf_n_features := \<lambda>texts. 3\<rparr>) [''alpha beta''] 1)
     = Some 1 \<and> eff_dims 256 3 = 8"
  using eff_dims_misses_documented_bounds by blast

end
